theory Spec2Isabelle
  imports Complex_Main "HOL-Library.Word" "HOL-Library.Multiset"
begin

section \<open>The C++ type \<^verbatim>\<open>double\<close>\<close>

text \<open>
  The invoice program of \<^verbatim>\<open>01-invoice-srp-ocp.cpp\<close> computes every amount in the C++
  type \<^verbatim>\<open>double\<close>. The model below is IEEE 754 binary64 with the default rounding
  (to nearest, ties to even) and every operation rounded on its own, as a C++ compiler
  produces it for x86-64: a value is a finite number (kept as the real number it denotes,
  \<open>Fin 0\<close> being \<open>+0.0\<close>), the negative zero, one of the two infinities, or a NaN
  with its sign bit (\<open>NaN True\<close> has the bit set). The payload of a NaN is not modelled.
  As on x86-64, an invalid operation (\<open>\<infinity> - \<infinity>\<close>, \<open>0 * \<infinity>\<close>, \<open>0 / 0\<close>, \<open>\<infinity> / \<infinity>\<close>) gives the
  NaN with the sign bit set, and an operation on a NaN gives that NaN, the first one
  when both operands are NaNs.
\<close>

datatype double = Fin real | NegZero | PInf | NInf | NaN bool

text \<open>The number of digits of a positive integer in base \<open>b\<close> (0 for \<open>n \<le> 0\<close>).\<close>

function num_digits :: "int \<Rightarrow> int \<Rightarrow> int" where
  "num_digits b n = (if n \<le> 0 \<or> b \<le> 1 then 0 else 1 + num_digits b (n div b))"
  by pat_completeness auto
termination
  by (relation "measure (\<lambda>(b, n). nat n)") (auto intro: int_div_less_self)

declare num_digits.simps [simp del]

text \<open>\<open>b\<close> to an integer power, and \<open>\<lfloor>log\<^sub>b a\<rfloor>\<close> of a positive real.\<close>

definition ipow :: "real \<Rightarrow> int \<Rightarrow> real" where
  "ipow b e = (if 0 \<le> e then b ^ nat e else 1 / b ^ nat (- e))"

definition floor_log :: "int \<Rightarrow> real \<Rightarrow> int" where
  "floor_log b a =
     (if 1 \<le> a then num_digits b \<lfloor>a\<rfloor> - 1
      else - num_digits b (\<lceil>1 / a\<rceil> - 1))"

text \<open>Rounding to the nearest integer, a tie going to the even one.\<close>

definition round_half_even :: "real \<Rightarrow> int" where
  "round_half_even x =
     (let f = \<lfloor>x\<rfloor>; r = x - of_int f
      in if r < 1 / 2 then f
         else if 1 / 2 < r then f + 1
         else if even f then f else f + 1)"

text \<open>
  Rounding an exact result \<open>q\<close> to binary64: the exponent \<open>e\<close> of the last place leaves
  53 significant bits and is at least \<open>-1074\<close> (subnormal numbers); \<open>\<bar>q\<bar>\<close> is rounded
  to the multiple \<open>m * 2\<^sup>e\<close>, which overflows to an infinity from \<open>2\<^sup>1\<^sup>0\<^sup>2\<^sup>4\<close> on.
  A result that rounds to zero keeps the sign of the exact value.
\<close>

definition pack :: "bool \<Rightarrow> int \<Rightarrow> int \<Rightarrow> double" where
  "pack neg m e =
     (if 2 ^ 1024 \<le> of_int m * ipow 2 e then (if neg then NInf else PInf)
      else if m = 0 then (if neg then NegZero else Fin 0)
      else Fin (if neg then - (of_int m * ipow 2 e) else of_int m * ipow 2 e))"

definition rnd_at :: "int \<Rightarrow> real \<Rightarrow> double" where
  "rnd_at e q = pack (q < 0) (round_half_even (\<bar>q\<bar> / ipow 2 e)) e"

definition rnd :: "real \<Rightarrow> double" where
  "rnd q = (if q = 0 then Fin 0 else rnd_at (max (floor_log 2 \<bar>q\<bar> - 52) (- 1074)) q)"

text \<open>
  The finite values of the type are the numbers that rounding leaves as they are.
\<close>

definition is_double :: "double \<Rightarrow> bool" where
  "is_double d = (case d of Fin q \<Rightarrow> rnd q = Fin q | _ \<Rightarrow> True)"

fun is_nan :: "double \<Rightarrow> bool" where
  "is_nan (NaN s) = True"
| "is_nan _ = False"

fun is_inf :: "double \<Rightarrow> bool" where
  "is_inf PInf = True"
| "is_inf NInf = True"
| "is_inf _ = False"

fun is_zero :: "double \<Rightarrow> bool" where
  "is_zero (Fin q) = (q = 0)"
| "is_zero NegZero = True"
| "is_zero _ = False"

fun is_finite :: "double \<Rightarrow> bool" where
  "is_finite (Fin q) = True"
| "is_finite NegZero = True"
| "is_finite _ = False"

text \<open>\<^verbatim>\<open>std::signbit\<close>: the sign bit, set for the negative zero too.\<close>

fun signbit :: "double \<Rightarrow> bool" where
  "signbit (Fin q) = (q < 0)"
| "signbit NegZero = True"
| "signbit NInf = True"
| "signbit PInf = False"
| "signbit (NaN s) = s"

fun valof :: "double \<Rightarrow> real" where
  "valof (Fin q) = q"
| "valof _ = 0"

definition signed_zero :: "bool \<Rightarrow> double" where
  "signed_zero neg = (if neg then NegZero else Fin 0)"

definition signed_inf :: "bool \<Rightarrow> double" where
  "signed_inf neg = (if neg then NInf else PInf)"

text \<open>The arithmetic operators of \<^verbatim>\<open>double\<close>.\<close>

fun fadd :: "double \<Rightarrow> double \<Rightarrow> double" where
  "fadd (NaN s) y = NaN s"
| "fadd x (NaN s) = NaN s"
| "fadd PInf NInf = NaN True"
| "fadd NInf PInf = NaN True"
| "fadd PInf y = PInf"
| "fadd x PInf = PInf"
| "fadd NInf y = NInf"
| "fadd x NInf = NInf"
| "fadd NegZero NegZero = NegZero"
| "fadd NegZero (Fin b) = Fin b"
| "fadd (Fin a) NegZero = Fin a"
| "fadd (Fin a) (Fin b) = rnd (a + b)"

fun fneg :: "double \<Rightarrow> double" where
  "fneg (Fin q) = (if q = 0 then NegZero else Fin (- q))"
| "fneg NegZero = Fin 0"
| "fneg PInf = NInf"
| "fneg NInf = PInf"
| "fneg (NaN s) = NaN (\<not> s)"

text \<open>A subtraction gives a NaN operand as it is, the sign included.\<close>

definition fsub :: "double \<Rightarrow> double \<Rightarrow> double" where
  "fsub x y = (if is_nan x then x else if is_nan y then y else fadd x (fneg y))"

definition fmul :: "double \<Rightarrow> double \<Rightarrow> double" where
  "fmul x y =
     (if is_nan x then x
      else if is_nan y then y
      else if is_inf x \<or> is_inf y then
        (if is_zero x \<or> is_zero y then NaN True else signed_inf (signbit x \<noteq> signbit y))
      else if is_zero x \<or> is_zero y then signed_zero (signbit x \<noteq> signbit y)
      else rnd (valof x * valof y))"

definition fdiv :: "double \<Rightarrow> double \<Rightarrow> double" where
  "fdiv x y =
     (if is_nan x then x
      else if is_nan y then y
      else if is_inf x then
        (if is_inf y then NaN True else signed_inf (signbit x \<noteq> signbit y))
      else if is_inf y then signed_zero (signbit x \<noteq> signbit y)
      else if is_zero y then
        (if is_zero x then NaN True else signed_inf (signbit x \<noteq> signbit y))
      else if is_zero x then signed_zero (signbit x \<noteq> signbit y)
      else rnd (valof x / valof y))"

text \<open>
  The conversion of a C++ \<^verbatim>\<open>int\<close> (32 bits, two's complement) to \<^verbatim>\<open>double\<close>
  is exact: every such integer has fewer than 53 bits.
\<close>

definition double_of_int :: "32 word \<Rightarrow> double" where
  "double_of_int i = Fin (of_int (sint i))"

text \<open>
  The comparisons \<^verbatim>\<open><\<close> and \<^verbatim>\<open><=\<close> of \<^verbatim>\<open>double\<close>: a NaN compares with nothing, the
  two zeros are equal.
\<close>

definition rank :: "double \<Rightarrow> int" where
  "rank d = (case d of PInf \<Rightarrow> 1 | NInf \<Rightarrow> - 1 | _ \<Rightarrow> 0)"

definition flt :: "double \<Rightarrow> double \<Rightarrow> bool" where
  "flt x y =
     (\<not> is_nan x \<and> \<not> is_nan y \<and> (rank x < rank y \<or> rank x = rank y \<and> valof x < valof y))"

definition fle :: "double \<Rightarrow> double \<Rightarrow> bool" where
  "fle x y =
     (\<not> is_nan x \<and> \<not> is_nan y \<and> (rank x < rank y \<or> rank x = rank y \<and> valof x \<le> valof y))"

text \<open>
  The conversion of a \<^verbatim>\<open>double\<close> to \<^verbatim>\<open>int\<close>, which C++ applies to a \<^verbatim>\<open>double\<close>
  argument of a parameter of type \<^verbatim>\<open>int\<close>: the fraction is dropped; the behaviour is
  undefined (\<open>None\<close>) when the result is not an \<^verbatim>\<open>int\<close>.
\<close>

definition to_zero :: "real \<Rightarrow> int" where
  "to_zero q = (if q < 0 then \<lceil>q\<rceil> else \<lfloor>q\<rfloor>)"

definition int_of_double :: "double \<Rightarrow> 32 word option" where
  "int_of_double d =
     (case d of
        Fin q \<Rightarrow>
          (if - (2 ^ 31) \<le> to_zero q \<and> to_zero q < 2 ^ 31
           then Some (word_of_int (to_zero q)) else None)
      | NegZero \<Rightarrow> Some 0
      | _ \<Rightarrow> None)"

text \<open>A decimal literal of the source denotes the double nearest to it.\<close>

definition literal :: "real \<Rightarrow> double" where
  "literal q = rnd q"

section \<open>Text output of numbers\<close>

text \<open>
  The decimal digits of a non-negative integer, and \<^verbatim>\<open>operator<<\<close> on an \<^verbatim>\<open>int\<close>.
\<close>

definition digit_char :: "int \<Rightarrow> char" where
  "digit_char d = ''0123456789'' ! nat d"

function digits10 :: "int \<Rightarrow> string" where
  "digits10 n = (if n < 10 then [digit_char n] else digits10 (n div 10) @ [digit_char (n mod 10)])"
  by pat_completeness auto
termination
  by (relation "measure nat") auto

declare digits10.simps [simp del]

definition show_int :: "int \<Rightarrow> string" where
  "show_int n = (if n < 0 then CHR ''-'' # digits10 (- n) else digits10 n)"

definition strip_zeros :: "string \<Rightarrow> string" where
  "strip_zeros s = rev (dropWhile (\<lambda>c. c = CHR ''0'') (rev s))"

definition show_exponent :: "int \<Rightarrow> string" where
  "show_exponent x =
     CHR ''e'' # (if x < 0 then CHR ''-'' else CHR ''+'') #
     (if \<bar>x\<bar> < 10 then ''0'' else []) @ digits10 \<bar>x\<bar>"

text \<open>
  \<^verbatim>\<open>operator<<\<close> on a \<^verbatim>\<open>double\<close>, for a stream in its initial state as the
  renderer's \<^verbatim>\<open>ostringstream\<close> is: the conversion \<^verbatim>\<open>%g\<close> with precision 6.
  The value is rounded to six significant decimal digits \<open>ds\<close> with decimal exponent
  \<open>x\<close> (one more when the digits round up to \<open>1000000\<close>); scientific notation is used
  when \<open>x < -4\<close> or \<open>x \<ge> 6\<close>, trailing zeros of the fraction are dropped, and the point
  with them when nothing is left behind it. An infinity and a NaN are written by name,
  after a minus sign when the sign bit is set.
\<close>

definition layout :: "int \<Rightarrow> string \<Rightarrow> string" where
  "layout x ds =
     (if x < - 4 \<or> 6 \<le> x then
        take 1 ds @
        (if strip_zeros (drop 1 ds) = [] then [] else CHR ''.'' # strip_zeros (drop 1 ds)) @
        show_exponent x
      else if 0 \<le> x then
        take (nat x + 1) ds @
        (if strip_zeros (drop (nat x + 1) ds) = [] then []
         else CHR ''.'' # strip_zeros (drop (nat x + 1) ds))
      else ''0.'' @ replicate (nat (- x - 1)) CHR ''0'' @ strip_zeros ds)"

definition significant6 :: "int \<Rightarrow> int \<Rightarrow> string" where
  "significant6 x d =
     (if d = 1000000 then layout (x + 1) (digits10 100000) else layout x (digits10 d))"

definition general6_at :: "int \<Rightarrow> real \<Rightarrow> string" where
  "general6_at x a = significant6 x (round_half_even (a / ipow 10 (x - 5)))"

definition general6 :: "real \<Rightarrow> string" where
  "general6 a = general6_at (floor_log 10 a) a"

definition show_double :: "double \<Rightarrow> string" where
  "show_double d =
     (case d of
        Fin q \<Rightarrow> (if q = 0 then ''0'' else (if q < 0 then ''-'' else []) @ general6 \<bar>q\<bar>)
      | NegZero \<Rightarrow> ''-0''
      | PInf \<Rightarrow> ''inf''
      | NInf \<Rightarrow> ''-inf''
      | NaN s \<Rightarrow> (if s then ''-nan'' else ''nan''))"

text \<open>
  \<^verbatim>\<open>std::to_string(double)\<close>: the conversion \<^verbatim>\<open>%f\<close>, which rounds a finite value
  to six digits after the decimal point and writes an infinity or a NaN by name, after
  a minus sign when the sign bit is set.
\<close>

definition pad6 :: "string \<Rightarrow> string" where
  "pad6 ds = replicate (6 - length ds) CHR ''0'' @ ds"

definition fixed_layout :: "int \<Rightarrow> string" where
  "fixed_layout n = digits10 (n div 1000000) @ CHR ''.'' # pad6 (digits10 (n mod 1000000))"

definition fixed6 :: "real \<Rightarrow> string" where
  "fixed6 a = fixed_layout (round_half_even (a * 1000000))"

definition to_string :: "double \<Rightarrow> string" where
  "to_string d =
     (case d of
        Fin q \<Rightarrow> (if q < 0 then ''-'' else []) @ fixed6 \<bar>q\<bar>
      | NegZero \<Rightarrow> CHR ''-'' # fixed6 0
      | PInf \<Rightarrow> ''inf''
      | NInf \<Rightarrow> ''-inf''
      | NaN s \<Rightarrow> (if s then ''-nan'' else ''nan''))"

section \<open>The invoice program\<close>

record LineItem =
  sku :: string
  quantity :: "32 word"
  unitPrice :: double

subsection \<open>Discount strategies\<close>

text \<open>
  The two classes that implement \<^verbatim>\<open>IDiscountStrategy\<close>. \<^verbatim>\<open>PercentOff\<close> holds a
  \<^verbatim>\<open>double\<close>, \<^verbatim>\<open>FlatOff\<close> an \<^verbatim>\<open>int\<close>.
\<close>

datatype IDiscountStrategy = PercentOff double | FlatOff "32 word"

fun compute :: "IDiscountStrategy \<Rightarrow> double \<Rightarrow> double" where
  "compute (PercentOff percent) subtotal = fmul subtotal (fdiv percent (double_of_int 100))"
| "compute (FlatOff amount) subtotal = double_of_int amount"

subsection \<open>Tax rule\<close>

datatype ITaxRule = GST18

fun tax_compute :: "ITaxRule \<Rightarrow> double \<Rightarrow> double" where
  "tax_compute GST18 base = fmul base (literal (18 / 100))"

subsection \<open>Renderer\<close>

datatype IInvoiceRenderer = SimpleTextRenderer

text \<open>The loop over the items appends to the output stream \<open>out\<close>.\<close>

fun render_items :: "string \<Rightarrow> LineItem list \<Rightarrow> string" where
  "render_items out [] = out"
| "render_items out (it # items) =
     render_items
       (out @ sku it @ '' x'' @ show_int (sint (quantity it)) @ '' @ '' @
        show_double (unitPrice it) @ [CHR 0x0A])
       items"

fun render ::
  "IInvoiceRenderer \<Rightarrow> LineItem list \<Rightarrow> double \<Rightarrow> double \<Rightarrow> double \<Rightarrow> double \<Rightarrow> string"
where
  "render SimpleTextRenderer items subtotal discount tax grand =
     (let out = ''INVOICE'' @ [CHR 0x0A];
          out = render_items out items;
          out = out @ ''Subtotal: '' @ show_double subtotal @ [CHR 0x0A];
          out = out @ ''Discounts: '' @ show_double discount @ [CHR 0x0A];
          out = out @ ''Tax: '' @ show_double tax @ [CHR 0x0A];
          out = out @ ''Total: '' @ show_double grand @ [CHR 0x0A]
      in out)"

subsection \<open>Collaborators\<close>

text \<open>
  \<^verbatim>\<open>IEmailService::send\<close> and \<^verbatim>\<open>ILogger::log\<close> return nothing: a call acts on
  the world outside the service only. An implementation is the function that gives the
  world after the call; the calls are taken to return, as those of the two console
  classes do. For the console classes the world is the text written to \<^verbatim>\<open>cout\<close>.
\<close>

definition ConsoleEmailService_send :: "string \<Rightarrow> string \<Rightarrow> string \<Rightarrow> string" where
  "ConsoleEmailService_send email content cout =
     cout @ ''[SMTP] Sending invoice to '' @ email @ ''...'' @ [CHR 0x0A]"

definition ConsoleLogger_log :: "string \<Rightarrow> string \<Rightarrow> string" where
  "ConsoleLogger_log msg cout = cout @ ''[LOG] '' @ msg @ [CHR 0x0A]"

subsection \<open>InvoiceService\<close>

record 'w InvoiceService =
  taxRule :: ITaxRule
  renderer :: IInvoiceRenderer
  emailer :: "string \<Rightarrow> string \<Rightarrow> 'w \<Rightarrow> 'w"
  logger :: "string \<Rightarrow> 'w \<Rightarrow> 'w"

text \<open>The two accumulating loops of \<^verbatim>\<open>process\<close>.\<close>

fun sum_items :: "double \<Rightarrow> LineItem list \<Rightarrow> double" where
  "sum_items subtotal [] = subtotal"
| "sum_items subtotal (it # items) =
     sum_items (fadd subtotal (fmul (unitPrice it) (double_of_int (quantity it)))) items"

fun sum_discounts :: "double \<Rightarrow> double \<Rightarrow> IDiscountStrategy list \<Rightarrow> double" where
  "sum_discounts subtotal discount_total [] = discount_total"
| "sum_discounts subtotal discount_total (d # discounts) =
     sum_discounts subtotal (fadd discount_total (compute d subtotal)) discounts"

text \<open>The four local variables that \<^verbatim>\<open>process\<close> computes before it renders.\<close>

record Totals =
  subtotal :: double
  discount_total :: double
  tax :: double
  grand :: double

definition totals :: "ITaxRule \<Rightarrow> LineItem list \<Rightarrow> IDiscountStrategy list \<Rightarrow> Totals" where
  "totals rule items discounts =
     (let subtotal = sum_items (Fin 0) items;
          discount_total = sum_discounts subtotal (Fin 0) discounts;
          tax = tax_compute rule (fsub subtotal discount_total);
          grand = fadd (fsub subtotal discount_total) tax
      in \<lparr>subtotal = subtotal, discount_total = discount_total, tax = tax, grand = grand\<rparr>)"

definition audit_message :: "string \<Rightarrow> double \<Rightarrow> string" where
  "audit_message email g = ''Invoice processed for '' @ email @ '' total='' @ to_string g"

text \<open>
  \<^verbatim>\<open>InvoiceService::process\<close>, in the world \<open>w\<close>: the result is the returned text and
  the world after the calls to the collaborators.
\<close>

definition process ::
  "'w InvoiceService \<Rightarrow> LineItem list \<Rightarrow> IDiscountStrategy list \<Rightarrow> string \<Rightarrow> 'w \<Rightarrow> string \<times> 'w"
where
  "process svc items discounts email w =
     (let t = totals (taxRule svc) items discounts;
          content = render (renderer svc) items (subtotal t) (discount_total t) (tax t) (grand t);
          w = (if email \<noteq> [] then emailer svc email content w else w);
          w = logger svc (audit_message email (grand t)) w
      in (content, w))"

text \<open>
  \<^verbatim>\<open>main\<close>: the service with the console collaborators processes two items with one
  discount of ten percent, then writes the returned text to \<^verbatim>\<open>cout\<close>.
\<close>

definition console_service :: "string InvoiceService" where
  "console_service =
     \<lparr>taxRule = GST18, renderer = SimpleTextRenderer,
      emailer = ConsoleEmailService_send, logger = ConsoleLogger_log\<rparr>"

definition main_items :: "LineItem list" where
  "main_items =
     [\<lparr>sku = ''ITEM-001'', quantity = 3, unitPrice = literal 100\<rparr>,
      \<lparr>sku = ''ITEM-002'', quantity = 1, unitPrice = literal 250\<rparr>]"

definition main :: "string \<Rightarrow> string" where
  "main cout =
     (let (content, cout) =
        process console_service main_items [PercentOff (literal 10)] ''customer@example.com'' cout
      in cout @ content)"

section \<open>Lines of text and recorded calls\<close>

text \<open>
  The layout of the invoice text, to compare the renderer with: the line of an item,
  a text made of lines that each end in a newline, and the lines of a text.
\<close>

definition item_line :: "LineItem \<Rightarrow> string" where
  "item_line it =
     sku it @ '' x'' @ show_int (sint (quantity it)) @ '' @ '' @ show_double (unitPrice it)"

definition unlines :: "string list \<Rightarrow> string" where
  "unlines ls = concat (map (\<lambda>l. l @ [CHR 0x0A]) ls)"

fun split_lines :: "string \<Rightarrow> string \<Rightarrow> string list" where
  "split_lines line [] = (if line = [] then [] else [line])"
| "split_lines line (c # cs) =
     (if c = CHR 0x0A then line # split_lines [] cs else split_lines (line @ [c]) cs)"

text \<open>
  Collaborators that record the calls made to them, in order: the world is the list of
  the calls so far.
\<close>

datatype call = Send string string | Log string

definition recording_service :: "call list InvoiceService" where
  "recording_service =
     \<lparr>taxRule = GST18, renderer = SimpleTextRenderer,
      emailer = (\<lambda>email content calls. calls @ [Send email content]),
      logger = (\<lambda>msg calls. calls @ [Log msg])\<rparr>"

text \<open>
  A unit price that is a whole number, and the exact product of such a price and the
  quantity.
\<close>

definition whole_price :: "LineItem \<Rightarrow> bool" where
  "whole_price it =
     (is_finite (unitPrice it) \<and> valof (unitPrice it) = of_int \<lfloor>valof (unitPrice it)\<rfloor>)"

definition ext_price :: "LineItem \<Rightarrow> int" where
  "ext_price it = \<lfloor>valof (unitPrice it)\<rfloor> * sint (quantity it)"

section \<open>Inputs of the scenarios\<close>

text \<open>An invoice of one item at \<open>100.0\<close>, to be discounted by more than its subtotal.\<close>

definition over_discounted :: "LineItem list" where
  "over_discounted = [\<lparr>sku = ''ITEM-001'', quantity = 1, unitPrice = literal 100\<rparr>]"

text \<open>Three items at \<open>0.1\<close>, \<open>0.2\<close> and \<open>0.3\<close>, one of each.\<close>

definition dimes :: "LineItem list" where
  "dimes =
     [\<lparr>sku = ''A'', quantity = 1, unitPrice = literal (1 / 10)\<rparr>,
      \<lparr>sku = ''B'', quantity = 1, unitPrice = literal (2 / 10)\<rparr>,
      \<lparr>sku = ''C'', quantity = 1, unitPrice = literal (3 / 10)\<rparr>]"

text \<open>Two of an item at \<open>2\<^sup>1\<^sup>0\<^sup>2\<^sup>3\<close>, a double: their product is beyond the largest double.\<close>

definition overflowing :: "LineItem list" where
  "overflowing = [\<lparr>sku = ''ITEM-001'', quantity = 2, unitPrice = Fin (2 ^ 1023)\<rparr>]"

text \<open>One item whose SKU holds a newline.\<close>

definition split_sku :: "LineItem list" where
  "split_sku = [\<lparr>sku = ''x\<newline>y'', quantity = 1, unitPrice = literal 5\<rparr>]"

section \<open>Evaluation on numerals\<close>

lemma num_digits_0: "num_digits b 0 = 0"
  by (subst num_digits.simps) simp

lemma num_digits_1: "num_digits b 1 = (if b \<le> 1 then 0 else 1)"
  by (subst num_digits.simps, subst num_digits.simps) simp

lemma num_digits_numeral:
  "num_digits b (numeral k) = (if b \<le> 1 then 0 else 1 + num_digits b (numeral k div b))"
  by (subst num_digits.simps) simp

lemma digits10_0: "digits10 0 = [digit_char 0]"
  by (subst digits10.simps) simp

lemma digits10_1: "digits10 1 = [digit_char 1]"
  by (subst digits10.simps) simp

lemma digits10_numeral:
  "digits10 (numeral k) =
     (if numeral k < (10::int) then [digit_char (numeral k)]
      else digits10 (numeral k div 10) @ [digit_char (numeral k mod 10)])"
  by (subst digits10.simps) simp

lemmas float_eval =
  rnd_def rnd_at_def pack_def floor_log_def round_half_even_def ipow_def Let_def
  num_digits_0 num_digits_1 num_digits_numeral
  fmul_def fdiv_def fsub_def double_of_int_def literal_def signed_zero_def signed_inf_def

lemmas text_eval =
  digits10_0 digits10_1 digits10_numeral digit_char_def show_int_def strip_zeros_def
  show_exponent_def layout_def significant6_def general6_at_def general6_def show_double_def
  pad6_def fixed_layout_def fixed6_def to_string_def

lemma literal_18: "literal (18 / 100) = Fin (3242591731706757 / 18014398509481984)"
  by (simp add: float_eval)

text \<open>
  The model runs \<^verbatim>\<open>main\<close> to the text that the program writes.
\<close>

lemma main_output:
  "main [] =
     ''[SMTP] Sending invoice to customer@example.com...\<newline>'' @
     ''[LOG] Invoice processed for customer@example.com total=584.100000\<newline>'' @
     ''INVOICE\<newline>ITEM-001 x3 @ 100\<newline>ITEM-002 x1 @ 250\<newline>'' @
     ''Subtotal: 550\<newline>Discounts: 55\<newline>Tax: 89.1\<newline>Total: 584.1\<newline>''"
  by (simp add: main_def process_def console_service_def main_items_def totals_def
      audit_message_def ConsoleEmailService_send_def ConsoleLogger_log_def float_eval text_eval)

section \<open>Rounding\<close>

lemma ipow_pos: "0 < ipow 2 e"
  by (simp add: ipow_def)

lemma ipow_powi: "ipow 2 e = 2 powi e"
  unfolding ipow_def power_int_def by (simp add: inverse_eq_divide power_one_over)

lemma round_half_even_of_int: "round_half_even (of_int z) = z"
  by (simp add: round_half_even_def)

lemma round_half_even_ge: "real_of_int k \<le> x \<Longrightarrow> k \<le> round_half_even x"
proof -
  assume "real_of_int k \<le> x"
  then have "k \<le> \<lfloor>x\<rfloor>" by (simp add: le_floor_iff)
  then show ?thesis by (simp add: round_half_even_def Let_def)
qed

lemma round_half_even_nonneg: "0 \<le> x \<Longrightarrow> 0 \<le> round_half_even x"
  using round_half_even_ge [of 0 x] by simp

lemma round_half_even_pos: "1 / 2 < x \<Longrightarrow> 1 \<le> round_half_even x"
proof (cases "1 \<le> x")
  case True
  then show ?thesis
    using round_half_even_ge [of 1 x] by simp
next
  case False
  assume "1 / 2 < x"
  with False have "\<lfloor>x\<rfloor> = 0" by (simp add: floor_eq_iff)
  with \<open>1 / 2 < x\<close> show ?thesis
    by (simp add: round_half_even_def Let_def)
qed

text \<open>The binary digits of a positive integer, and \<open>\<lfloor>log\<^sub>2 a\<rfloor>\<close>.\<close>

lemma num_digits_2_bounds:
  "0 < n \<Longrightarrow> 1 \<le> num_digits 2 n \<and> 2 ^ nat (num_digits 2 n - 1) \<le> n \<and> n < 2 ^ nat (num_digits 2 n)"
proof (induction "2::int" n rule: num_digits.induct)
  case (1 n)
  show ?case
  proof (cases "n = 1")
    case True
    then show ?thesis by (simp add: num_digits_1)
  next
    case False
    with 1(2) have pos: "0 < n div 2" by simp
    from 1(2) have nd: "num_digits 2 n = 1 + num_digits 2 (n div 2)"
      by (subst num_digits.simps) simp
    from 1(1) 1(2) pos have ih: "1 \<le> num_digits 2 (n div 2)"
      "2 ^ nat (num_digits 2 (n div 2) - 1) \<le> n div 2"
      "n div 2 < 2 ^ nat (num_digits 2 (n div 2))"
      by simp_all
    have eq: "nat (num_digits 2 (n div 2)) = Suc (nat (num_digits 2 (n div 2) - 1))"
      using ih(1) by simp
    have "2 * 2 ^ nat (num_digits 2 (n div 2) - 1) \<le> n"
      using ih(2) by linarith
    moreover have "n < 2 * 2 ^ nat (num_digits 2 (n div 2))"
      using ih(3) by linarith
    ultimately show ?thesis
      using ih(1) eq by (simp add: nd nat_add_distrib)
  qed
qed

lemma floor_log_2_le:
  assumes "0 < a"
  shows "2 powi (floor_log 2 a) \<le> a"
proof (cases "1 \<le> a")
  case True
  then have pos: "0 < \<lfloor>a\<rfloor>" by simp
  from num_digits_2_bounds [OF pos]
  have D: "1 \<le> num_digits 2 \<lfloor>a\<rfloor>" "2 ^ nat (num_digits 2 \<lfloor>a\<rfloor> - 1) \<le> \<lfloor>a\<rfloor>"
    by simp_all
  have "2 powi (floor_log 2 a) = (2::real) ^ nat (num_digits 2 \<lfloor>a\<rfloor> - 1)"
    using True D(1) by (simp add: floor_log_def power_int_def)
  also have "\<dots> = of_int (2 ^ nat (num_digits 2 \<lfloor>a\<rfloor> - 1))"
    by simp
  also have "\<dots> \<le> of_int \<lfloor>a\<rfloor>"
    using D(2) by (simp only: of_int_le_iff)
  also have "\<dots> \<le> a" by simp
  finally show ?thesis .
next
  case False
  define k where "k = \<lceil>1 / a\<rceil> - 1"
  from False assms have "1 < 1 / a" by simp
  then have "1 < \<lceil>1 / a\<rceil>" by (simp add: less_ceiling_iff)
  then have pos: "0 < k" by (simp add: k_def)
  from num_digits_2_bounds [OF pos]
  have D: "1 \<le> num_digits 2 k" "k < 2 ^ nat (num_digits 2 k)"
    by simp_all
  have "1 / a \<le> of_int \<lceil>1 / a\<rceil>" by simp
  also have "\<dots> = of_int (k + 1)" by (simp add: k_def)
  also have "\<dots> \<le> of_int (2 ^ nat (num_digits 2 k))"
    using D(2) by (simp only: of_int_le_iff zle_add1_eq_le)
  finally have "1 / a \<le> 2 ^ nat (num_digits 2 k)" by simp
  then have "1 / 2 ^ nat (num_digits 2 k) \<le> a"
    using assms by (simp add: field_simps)
  moreover have "2 powi (floor_log 2 a) = 1 / (2::real) ^ nat (num_digits 2 k)"
    using False D(1) by (simp add: floor_log_def k_def power_int_def inverse_eq_divide power_one_over)
  ultimately show ?thesis by simp
qed

lemma floor_log_2_gt:
  assumes "1 \<le> a"
  shows "a < 2 powi (floor_log 2 a + 1)"
proof -
  from assms have pos: "0 < \<lfloor>a\<rfloor>" by simp
  from num_digits_2_bounds [OF pos]
  have D: "1 \<le> num_digits 2 \<lfloor>a\<rfloor>" "\<lfloor>a\<rfloor> < 2 ^ nat (num_digits 2 \<lfloor>a\<rfloor>)"
    by simp_all
  have "a < of_int (\<lfloor>a\<rfloor> + 1)" by simp
  also have "\<dots> \<le> of_int (2 ^ nat (num_digits 2 \<lfloor>a\<rfloor>))"
    using D(2) by (simp only: of_int_le_iff zle_add1_eq_le)
  also have "\<dots> = 2 powi (floor_log 2 a + 1)"
    using assms D(1) by (simp add: floor_log_def power_int_def)
  finally show ?thesis .
qed

lemma scaled_ge_2_52:
  assumes "0 < a"
  shows "2 ^ 52 \<le> a / ipow 2 (floor_log 2 a - 52)"
proof -
  define p where "p = ipow 2 (floor_log 2 a - 52)"
  have p: "0 < p"
    by (simp add: p_def ipow_pos)
  have "p = 2 powi (floor_log 2 a) / 2 powi 52"
    unfolding p_def ipow_powi by (rule power_int_diff) simp
  then have "2 ^ 52 * p = 2 powi (floor_log 2 a)"
    by simp
  also have "\<dots> \<le> a"
    using assms by (rule floor_log_2_le)
  finally show ?thesis
    using p by (simp only: pos_le_divide_eq p_def [symmetric])
qed

text \<open>A number of the grid is rounded to itself; so is every integer up to \<open>2\<^sup>5\<^sup>3\<close>.\<close>

lemma rnd_at_exact:
  assumes "\<bar>q\<bar> = of_int z * ipow 2 e" and "q \<noteq> 0" and "\<bar>q\<bar> < 2 ^ 1024"
  shows "rnd_at e q = Fin q"
proof -
  have d: "\<bar>q\<bar> / ipow 2 e = of_int z"
    using assms(1) ipow_pos [of e] by simp
  have z: "(z = 0) = False"
    using assms(1,2) by auto
  have v: "of_int z * ipow 2 e = \<bar>q\<bar>"
    using assms(1) by simp
  have n: "(2 ^ 1024 \<le> \<bar>q\<bar>) = False"
    using assms(3) by (simp only: not_le [symmetric])
  have s: "(if q < 0 then - \<bar>q\<bar> else \<bar>q\<bar>) = q"
    by simp
  show ?thesis
    by (simp only: rnd_at_def pack_def d round_half_even_of_int v n z s if_False)
qed

lemma rnd_of_int:
  assumes "\<bar>n\<bar> \<le> 2 ^ 53"
  shows "rnd (of_int n) = Fin (of_int n)"
proof (cases "n = 0")
  case True
  then show ?thesis by (simp add: rnd_def)
next
  case False
  define D where "D = num_digits 2 \<bar>n\<bar>"
  from False have pos: "0 < \<bar>n\<bar>" by simp
  from num_digits_2_bounds [OF pos]
  have D: "1 \<le> D" "2 ^ nat (D - 1) \<le> \<bar>n\<bar>" "\<bar>n\<bar> < 2 ^ nat D"
    by (simp_all add: D_def)
  have "(2::int) ^ nat (D - 1) \<le> 2 ^ 53"
    using D(2) assms by linarith
  then have "nat (D - 1) \<le> 53"
    by (simp only: power_increasing_iff [of "2::int"]) 
  with D(1) have D54: "D \<le> 54" by linarith
  have one: "1 \<le> \<bar>real_of_int n\<bar>"
    using pos by (metis int_one_le_iff_zero_less of_int_1_le_iff of_int_abs)
  have fl2: "\<lfloor>\<bar>real_of_int n\<bar>\<rfloor> = \<bar>n\<bar>"
    by (metis floor_of_int of_int_abs)
  have fl: "floor_log 2 \<bar>real_of_int n\<bar> = D - 1"
    by (simp only: floor_log_def one if_True fl2 D_def)
  have e: "max (floor_log 2 \<bar>real_of_int n\<bar> - 52) (- 1074) = D - 53"
    using D(1) by (simp add: fl)
  have small: "\<bar>real_of_int n\<bar> < 2 ^ 1024"
  proof -
    have "\<bar>real_of_int n\<bar> \<le> 2 ^ 53"
      using assms by (metis of_int_abs of_int_le_iff of_int_numeral of_int_power)
    also have "\<dots> < (2::real) ^ 1024"
      by (rule power_strict_increasing) simp_all
    finally show ?thesis .
  qed
  have "\<exists>z. \<bar>real_of_int n\<bar> = of_int z * ipow 2 (D - 53)"
  proof (cases "D \<le> 53")
    case True
    then have "ipow 2 (D - 53) * 2 ^ nat (53 - D) = 1"
      by (cases "D = 53") (simp_all add: ipow_def)
    then have "\<bar>real_of_int n\<bar> = of_int (\<bar>n\<bar> * 2 ^ nat (53 - D)) * ipow 2 (D - 53)"
      by (simp add: mult.assoc mult.commute [of "ipow 2 (D - 53)"])
    then show ?thesis ..
  next
    case False
    with D54 have D': "D = 54" by simp
    with D(2) assms have "\<bar>n\<bar> = 2 ^ 53" by simp
    then have "\<bar>real_of_int n\<bar> = of_int (2 ^ 52) * ipow 2 (D - 53)"
      by (simp add: D' ipow_def flip: of_int_abs)
    then show ?thesis ..
  qed
  then obtain z where z: "\<bar>real_of_int n\<bar> = of_int z * ipow 2 (D - 53)" ..
  have "rnd_at (D - 53) (of_int n) = Fin (of_int n)"
    using z _ small by (rule rnd_at_exact) (use \<open>n \<noteq> 0\<close> in simp)
  then show ?thesis
    using \<open>n \<noteq> 0\<close> by (simp only: rnd_def e) simp
qed

lemma fadd_of_int:
  "\<bar>a + b\<bar> \<le> 2 ^ 53 \<Longrightarrow> fadd (Fin (of_int a)) (Fin (of_int b)) = Fin (of_int (a + b))"
  using rnd_of_int [of "a + b"] by simp

text \<open>Overflow, the sign of a negative result, and underflow to the negative zero.\<close>

lemma rnd_overflow:
  assumes "2 ^ 1024 \<le> q"
  shows "rnd q = PInf"
proof -
  have big: "(2::real) ^ 1024 = 2 powi 1024"
    by (simp only: power_int_numeral)
  have q1: "1 \<le> q"
  proof -
    have "(1::real) \<le> 2 ^ 1024" by (rule one_le_power) simp
    with assms show ?thesis by linarith
  qed
  then have q0: "0 < q" by simp
  define e where "e = floor_log 2 q - 52"
  have "(2::real) powi 1024 < 2 powi (floor_log 2 q + 1)"
    using assms floor_log_2_gt [OF q1] by (simp only: big)
  then have "1024 < floor_log 2 q + 1"
    using power_int_increasing [of "floor_log 2 q + 1" 1024 "2::real"] by fastforce
  then have e972: "972 \<le> e"
    by (simp add: e_def)
  then have mx: "max (floor_log 2 q - 52) (- 1074) = e"
    by (simp add: e_def)
  define m where "m = round_half_even (q / ipow 2 e)"
  have "real_of_int (2 ^ 52) \<le> q / ipow 2 e"
    using scaled_ge_2_52 [OF q0] by (simp add: e_def)
  then have m52: "2 ^ 52 \<le> m"
    unfolding m_def by (rule round_half_even_ge)
  have "(2::real) ^ 1024 = 2 ^ 52 * 2 powi 972"
    by (simp only: power_int_numeral power_add [symmetric]) simp
  also have "\<dots> \<le> 2 ^ 52 * 2 powi e"
    using e972 by (intro mult_left_mono power_int_increasing) simp_all
  also have "\<dots> \<le> of_int m * 2 powi e"
  proof (rule mult_right_mono)
    from m52 have "real_of_int (2 ^ 52) \<le> real_of_int m"
      by (simp only: of_int_le_iff)
    then show "2 ^ 52 \<le> real_of_int m" by simp
  qed simp
  finally have "2 ^ 1024 \<le> of_int m * ipow 2 e"
    by (simp only: ipow_powi)
  then have "pack False m e = PInf"
    by (simp only: pack_def if_True if_False)
  with q0 show ?thesis
    by (simp add: rnd_def rnd_at_def mx m_def)
qed

lemma pack_neg_signbit: "0 \<le> m \<Longrightarrow> signbit (pack True m e)"
  using ipow_pos [of e] by (simp add: pack_def zero_less_mult_iff)

lemma signbit_rnd_neg:
  assumes "q < 0"
  shows "signbit (rnd q)"
proof -
  define e where "e = max (floor_log 2 \<bar>q\<bar> - 52) (- 1074)"
  have "0 \<le> \<bar>q\<bar> / ipow 2 e"
    using ipow_pos [of e] by simp
  then have "signbit (pack True (round_half_even (\<bar>q\<bar> / ipow 2 e)) e)"
    by (intro pack_neg_signbit round_half_even_nonneg)
  with assms show ?thesis
    by (simp add: rnd_def rnd_at_def e_def)
qed

lemma rnd_neg_strict:
  assumes "q < 0" and "1 / 2 < \<bar>q\<bar> * 2 ^ 1074"
  shows "flt (rnd q) (Fin 0)"
proof -
  define e where "e = max (floor_log 2 \<bar>q\<bar> - 52) (- 1074)"
  define m where "m = round_half_even (\<bar>q\<bar> / ipow 2 e)"
  have "1 / 2 < \<bar>q\<bar> / ipow 2 e"
  proof (cases "e = - 1074")
    case True
    with assms(2) show ?thesis by (simp add: ipow_def)
  next
    case False
    then have "e = floor_log 2 \<bar>q\<bar> - 52"
      by (simp add: e_def max_def split: if_splits)
    with scaled_ge_2_52 [of "\<bar>q\<bar>"] assms(1) have "2 ^ 52 \<le> \<bar>q\<bar> / ipow 2 e"
      by simp
    moreover have "(1 / 2 :: real) < 2 ^ 52" by simp
    ultimately show ?thesis by linarith
  qed
  then have "1 \<le> m"
    unfolding m_def by (rule round_half_even_pos)
  then have "0 < real_of_int m * ipow 2 e"
    using ipow_pos [of e] by (simp add: zero_less_mult_iff)
  with \<open>1 \<le> m\<close> have "flt (pack True m e) (Fin 0)"
    by (simp add: pack_def flt_def rank_def)
  with assms(1) show ?thesis
    by (simp add: rnd_def rnd_at_def e_def m_def)
qed

lemma rnd_underflow_neg:
  assumes "q < 0" and "\<bar>q\<bar> / ipow 2 (- 1074) < 1 / 2"
  shows "rnd q = NegZero"
proof -
  have small: "\<bar>q\<bar> < 2 powi (- 1075)"
  proof -
    have "\<bar>q\<bar> < 1 / 2 * ipow 2 (- 1074)"
      using assms(2) ipow_pos [of "- 1074"] by (simp only: pos_divide_less_eq)
    also have "\<dots> = 2 powi (- 1075)"
      unfolding ipow_powi using power_int_add [of "2::real" "- 1075" 1] by simp
    finally show ?thesis .
  qed
  have "floor_log 2 \<bar>q\<bar> < - 1075"
  proof (rule ccontr)
    assume "\<not> floor_log 2 \<bar>q\<bar> < - 1075"
    then have "(2::real) powi (- 1075) \<le> 2 powi (floor_log 2 \<bar>q\<bar>)"
      by (intro power_int_increasing) simp_all
    also have "\<dots> \<le> \<bar>q\<bar>"
      using assms(1) by (intro floor_log_2_le) simp
    finally show False
      using small by simp
  qed
  then have e: "max (floor_log 2 \<bar>q\<bar> - 52) (- 1074) = - 1074"
    by simp
  have "0 \<le> \<bar>q\<bar> / ipow 2 (- 1074)"
    using ipow_pos [of "- 1074"] by simp
  moreover from assms(2) have "\<bar>q\<bar> / ipow 2 (- 1074) < 1"
    by linarith
  ultimately have "\<lfloor>\<bar>q\<bar> / ipow 2 (- 1074)\<rfloor> = 0"
    by (simp only: floor_eq_iff) simp
  with assms(2) have r: "round_half_even (\<bar>q\<bar> / ipow 2 (- 1074)) = 0"
    by (simp add: round_half_even_def Let_def)
  have "rnd q = rnd_at (- 1074) q"
    using assms(1) by (simp only: rnd_def e) simp
  also have "\<dots> = pack True 0 (- 1074)"
    using assms(1) by (simp only: rnd_at_def r)
  also have "\<dots> = NegZero"
    by (simp add: pack_def)
  finally show ?thesis .
qed

section \<open>The totals\<close>

lemma sum_discounts_foldl:
  "sum_discounts s acc ds = foldl fadd acc (map (\<lambda>d. compute d s) ds)"
  by (induction ds arbitrary: acc) simp_all

lemma sum_items_foldl:
  "sum_items acc items =
     foldl fadd acc (map (\<lambda>it. fmul (unitPrice it) (double_of_int (quantity it))) items)"
  by (induction items arbitrary: acc) simp_all

text \<open>
  C1. The discount total is the sum, from \<open>0.0\<close> and in the order of the sequence, of
  what each strategy computes from the subtotal of the items: no strategy is given a
  remainder. A strategy appended to the sequence changes neither the subtotal nor what
  the strategies before it contribute: it adds what it computes from the same subtotal.
\<close>

theorem discount_total_is_sum_on_original_subtotal:
  "discount_total (totals rule items discounts) =
     foldl fadd (Fin 0)
       (map (\<lambda>d. compute d (subtotal (totals rule items discounts))) discounts)
   \<and> subtotal (totals rule items (discounts @ [d])) = subtotal (totals rule items discounts)
   \<and> discount_total (totals rule items (discounts @ [d])) =
     fadd (discount_total (totals rule items discounts))
       (compute d (subtotal (totals rule items discounts)))"
  by (simp add: totals_def Let_def sum_discounts_foldl)

lemma sum_items_over_discounted: "sum_items (Fin 0) over_discounted = Fin 100"
  by (simp add: over_discounted_def float_eval)

text \<open>
  C2. The tax rule is applied to the difference of the subtotal and the discount total,
  as the subtraction of \<^verbatim>\<open>double\<close> gives it, and the grand total is that difference
  plus the tax. Nothing clamps the difference: a flat discount of 1000 on a subtotal of
  100 makes it \<open>-900\<close>.
\<close>

theorem totals_identity:
  "tax (totals rule items discounts) =
     tax_compute rule
       (fsub (subtotal (totals rule items discounts))
          (discount_total (totals rule items discounts)))
   \<and> grand (totals rule items discounts) =
     fadd
       (fsub (subtotal (totals rule items discounts))
          (discount_total (totals rule items discounts)))
       (tax (totals rule items discounts))
   \<and> fsub (subtotal (totals GST18 over_discounted [FlatOff 1000]))
       (discount_total (totals GST18 over_discounted [FlatOff 1000])) = Fin (- 900)"
  by (simp add: totals_def Let_def sum_items_over_discounted)
     (simp add: float_eval)

text \<open>
  C9. When the items sum to 100 and the only discount is \<^verbatim>\<open>FlatOff(1000)\<close>, the
  discount total is 1000, the taxable base \<open>-900\<close>, the tax \<open>-162\<close> and the grand
  total \<open>-1062\<close>, each exactly: the product of \<open>-900\<close> and the double nearest to 0.18
  rounds to \<open>-162\<close>.
\<close>

theorem flat_discount_exceeding_subtotal:
  assumes "subtotal (totals rule items [FlatOff 1000]) = Fin 100"
  shows "discount_total (totals rule items [FlatOff 1000]) = Fin 1000
    \<and> fsub (subtotal (totals rule items [FlatOff 1000]))
        (discount_total (totals rule items [FlatOff 1000])) = Fin (- 900)
    \<and> tax (totals rule items [FlatOff 1000]) = Fin (- 162)
    \<and> grand (totals rule items [FlatOff 1000]) = Fin (- 1062)"
proof -
  from assms have s: "sum_items (Fin 0) items = Fin 100"
    by (simp add: totals_def Let_def)
  show ?thesis
    by (cases rule) (simp add: totals_def s float_eval)
qed

theorem flat_discount_exceeding_subtotal_witness:
  "subtotal (totals GST18 over_discounted [FlatOff 1000]) = Fin 100
   \<and> discount_total (totals GST18 over_discounted [FlatOff 1000]) = Fin 1000
   \<and> tax (totals GST18 over_discounted [FlatOff 1000]) = Fin (- 162)
   \<and> grand (totals GST18 over_discounted [FlatOff 1000]) = Fin (- 1062)"
proof -
  have h: "subtotal (totals GST18 over_discounted [FlatOff 1000]) = Fin 100"
    by (simp add: totals_def Let_def sum_items_over_discounted)
  show ?thesis
    using h flat_discount_exceeding_subtotal [OF h] by simp
qed

subsection \<open>The subtotal and the order of the items\<close>

text \<open>
  Against C3 as it is stated: the sum of the doubles \<open>0.1\<close>, \<open>0.2\<close> and \<open>0.3\<close> depends
  on the order in which they are added. Items at these prices, one of each, have the
  subtotal \<open>0.6\<close> (the double nearest to it) when the dearest comes first and another
  subtotal in the reverse order.
\<close>

lemma dimes_are_doubles: "list_all (\<lambda>it. is_double (unitPrice it)) dimes"
  by (simp add: dimes_def is_double_def float_eval)

theorem subtotal_counterexample:
  "mset (rev dimes) = mset dimes
   \<and> subtotal (totals GST18 (rev dimes) []) = literal (6 / 10)
   \<and> subtotal (totals GST18 dimes []) \<noteq> literal (6 / 10)"
  by (simp add: totals_def dimes_def float_eval)

lemma add_ext_price:
  assumes "whole_price it" and "\<bar>a\<bar> + \<bar>ext_price it\<bar> \<le> 2 ^ 53"
  shows "fadd (Fin (of_int a)) (fmul (unitPrice it) (double_of_int (quantity it))) =
    Fin (of_int (a + ext_price it))"
proof -
  define k where "k = \<lfloor>valof (unitPrice it)\<rfloor>"
  define s where "s = sint (quantity it)"
  have ext: "ext_price it = k * s"
    by (simp add: ext_price_def k_def s_def)
  from assms(1) have fin: "unitPrice it = Fin (of_int k) \<or> (unitPrice it = NegZero \<and> k = 0)"
    by (cases "unitPrice it") (simp_all add: whole_price_def k_def)
  have a: "\<bar>a\<bar> \<le> 2 ^ 53" and ak: "\<bar>a + k * s\<bar> \<le> 2 ^ 53" and ks: "\<bar>k * s\<bar> \<le> 2 ^ 53"
    using assms(2) by (simp_all add: ext)
  show ?thesis
  proof (cases "k = 0 \<or> s = 0")
    case True
    then have z: "k * s = 0" by auto
    from True fin have
      "fmul (unitPrice it) (double_of_int (quantity it)) = NegZero \<or>
       fmul (unitPrice it) (double_of_int (quantity it)) = Fin 0"
      by (auto simp add: fmul_def double_of_int_def signed_zero_def s_def simp del: of_int_sint)
    then show ?thesis
      using rnd_of_int [OF a] by (auto simp: ext z)
  next
    case False
    with fin have u: "unitPrice it = Fin (of_int k)" by simp
    from False have "fmul (unitPrice it) (double_of_int (quantity it)) = rnd (of_int (k * s))"
      by (simp add: u fmul_def double_of_int_def s_def del: of_int_sint)
    also have "\<dots> = Fin (of_int (k * s))"
      using ks by (rule rnd_of_int)
    finally show ?thesis
      using ak by (simp only: ext fadd_of_int)
  qed
qed

lemma sum_items_whole:
  assumes "\<forall>it\<in>set items. whole_price it"
    and "\<bar>a\<bar> + (\<Sum>it\<leftarrow>items. \<bar>ext_price it\<bar>) \<le> 2 ^ 53"
  shows "sum_items (Fin (of_int a)) items = Fin (of_int (a + (\<Sum>it\<leftarrow>items. ext_price it)))"
  using assms
proof (induction items arbitrary: a)
  case Nil
  then show ?case by simp
next
  case (Cons it items)
  have nonneg: "0 \<le> (\<Sum>it\<leftarrow>items. \<bar>ext_price it\<bar>)"
    by (rule sum_list_nonneg) auto
  from Cons.prems(2) nonneg have step: "\<bar>a\<bar> + \<bar>ext_price it\<bar> \<le> 2 ^ 53"
    by simp
  from Cons.prems(1) have w: "whole_price it" by simp
  have "\<bar>a + ext_price it\<bar> + (\<Sum>it\<leftarrow>items. \<bar>ext_price it\<bar>) \<le> 2 ^ 53"
    using Cons.prems(2) by simp
  with Cons.IH [of "a + ext_price it"] Cons.prems(1)
  have "sum_items (Fin (of_int (a + ext_price it))) items =
    Fin (of_int (a + ext_price it + (\<Sum>it\<leftarrow>items. ext_price it)))"
    by simp
  then show ?case
    by (simp add: add_ext_price [OF w step] add.assoc)
qed

lemma sum_list_permuted:
  fixes f :: "'a \<Rightarrow> int"
  assumes "mset xs = mset ys"
  shows "(\<Sum>x\<leftarrow>xs. f x) = (\<Sum>x\<leftarrow>ys. f x)"
proof -
  have "(\<Sum>x\<leftarrow>xs. f x) = sum_mset (image_mset f (mset xs))"
    by (metis mset_map sum_mset_sum_list)
  also have "\<dots> = sum_mset (image_mset f (mset ys))"
    by (simp add: assms)
  also have "\<dots> = (\<Sum>x\<leftarrow>ys. f x)"
    by (metis mset_map sum_mset_sum_list)
  finally show ?thesis .
qed

text \<open>
  C3, as the code has it. The subtotal is the sum, from \<open>0.0\<close> and in the order of the
  sequence, of the products of unit price and quantity, each product and each partial
  sum rounded to \<^verbatim>\<open>double\<close>. When every unit price is a whole number and the
  magnitudes of the exact products sum to at most \<open>2\<^sup>5\<^sup>3\<close>, nothing is rounded: the
  subtotal is the exact sum of the products, and it is the same for every permutation
  of the items.
\<close>

theorem subtotal_is_sum_in_order:
  "subtotal (totals rule items discounts) =
     foldl fadd (Fin 0) (map (\<lambda>it. fmul (unitPrice it) (double_of_int (quantity it))) items)
   \<and> ((\<forall>it\<in>set items. whole_price it) \<and> (\<Sum>it\<leftarrow>items. \<bar>ext_price it\<bar>) \<le> 2 ^ 53 \<and>
        mset items' = mset items \<longrightarrow>
      subtotal (totals rule items discounts) = Fin (of_int (\<Sum>it\<leftarrow>items. ext_price it)) \<and>
      subtotal (totals rule items' discounts') = subtotal (totals rule items discounts))"
proof -
  have exact: "sum_items (Fin 0) xs = Fin (of_int (\<Sum>it\<leftarrow>xs. ext_price it))"
    if "\<forall>it\<in>set xs. whole_price it" and "(\<Sum>it\<leftarrow>xs. \<bar>ext_price it\<bar>) \<le> 2 ^ 53" for xs
    using sum_items_whole [of xs 0] that by simp
  have "sum_items (Fin 0) items = Fin (of_int (\<Sum>it\<leftarrow>items. ext_price it)) \<and>
      sum_items (Fin 0) items' = sum_items (Fin 0) items"
    if w: "\<forall>it\<in>set items. whole_price it"
      and b: "(\<Sum>it\<leftarrow>items. \<bar>ext_price it\<bar>) \<le> 2 ^ 53"
      and p: "mset items' = mset items"
  proof -
    from p have "set items' = set items" by (rule mset_eq_setD)
    with w have w': "\<forall>it\<in>set items'. whole_price it" by simp
    from b have b': "(\<Sum>it\<leftarrow>items'. \<bar>ext_price it\<bar>) \<le> 2 ^ 53"
      by (simp only: sum_list_permuted [OF p])
    show ?thesis
      by (simp only: exact [OF w b] exact [OF w' b'] sum_list_permuted [OF p])
  qed
  then show ?thesis
    by (simp add: totals_def Let_def sum_items_foldl)
qed

theorem subtotal_is_sum_in_order_witness:
  "whole_price (main_items ! 0) \<and> whole_price (main_items ! 1)
   \<and> (\<Sum>it\<leftarrow>main_items. \<bar>ext_price it\<bar>) = 550
   \<and> mset (rev main_items) = mset main_items
   \<and> subtotal (totals GST18 main_items []) = Fin 550
   \<and> subtotal (totals GST18 (rev main_items) []) = subtotal (totals GST18 main_items [])"
proof -
  have w: "\<forall>it\<in>set main_items. whole_price it"
    by (simp add: main_items_def whole_price_def float_eval)
  have s: "(\<Sum>it\<leftarrow>main_items. \<bar>ext_price it\<bar>) = 550" "(\<Sum>it\<leftarrow>main_items. ext_price it) = 550"
    by (simp_all add: main_items_def ext_price_def float_eval)
  have b: "(\<Sum>it\<leftarrow>main_items. \<bar>ext_price it\<bar>) \<le> 2 ^ 53"
    by (simp add: s)
  have p: "mset (rev main_items) = mset main_items"
    by simp
  from subtotal_is_sum_in_order [of GST18 main_items "[]" "rev main_items" "[]"] w b p
  have "subtotal (totals GST18 main_items []) = Fin (of_int (\<Sum>it\<leftarrow>main_items. ext_price it)) \<and>
      subtotal (totals GST18 (rev main_items) []) = subtotal (totals GST18 main_items [])"
    by blast
  moreover have "whole_price (main_items ! 0) \<and> whole_price (main_items ! 1)"
    using w by (simp add: main_items_def)
  ultimately show ?thesis
    using s p by simp
qed

section \<open>The tax rule and the flat discount\<close>

text \<open>
  Against C4 as it is stated: the least double below zero is \<open>-2\<^sup>-\<^sup>1\<^sup>0\<^sup>7\<^sup>4\<close>. Its product
  with 0.18 is too small for a double: the tax is the negative zero, which is not below
  zero. The same holds for the base \<open>-2\<^sup>-\<^sup>1\<^sup>0\<^sup>7\<^sup>3\<close>.
\<close>

lemma least_double: "is_double (Fin (- ipow 2 (- 1074)))"
proof -
  define d where "d = ipow 2 (- 1074)"
  have d: "0 < d" by (simp add: d_def ipow_pos)
  have d1: "d < 2 ^ 1024"
    by (simp add: d_def ipow_def)
  have "\<not> - 1074 < floor_log 2 d"
  proof
    assume "- 1074 < floor_log 2 d"
    then have "(2::real) powi (- 1074) < 2 powi (floor_log 2 d)"
      by (intro power_int_strict_increasing) simp_all
    also have "\<dots> \<le> d"
      using d by (rule floor_log_2_le)
    finally show False
      by (simp add: d_def ipow_powi)
  qed
  then have e: "max (floor_log 2 \<bar>- d\<bar> - 52) (- 1074) = - 1074"
    using d by simp
  have "\<bar>- d\<bar> = of_int 1 * ipow 2 (- 1074)"
    using d by (simp add: d_def)
  moreover have "- d \<noteq> 0" using d by simp
  moreover have "\<bar>- d\<bar> < 2 ^ 1024" using d d1 by simp
  ultimately have "rnd_at (- 1074) (- d) = Fin (- d)"
    by (rule rnd_at_exact)
  with d have "rnd (- d) = Fin (- d)"
    by (simp only: rnd_def e) simp
  then show ?thesis
    by (simp only: is_double_def double.case d_def)
qed

lemma gst18_underflow: "tax_compute GST18 (Fin (- ipow 2 (- 1074))) = NegZero"
proof -
  let ?c = "3242591731706757 / 18014398509481984 :: real"
  define d where "d = ipow 2 (- 1074)"
  have d: "0 < d" by (simp add: d_def ipow_pos)
  have "rnd (- d * ?c) = NegZero"
  proof (rule rnd_underflow_neg)
    show "- d * ?c < 0" using d by simp
    have "\<bar>- d * ?c\<bar> / d = ?c" using d by (simp add: abs_mult)
    then show "\<bar>- d * ?c\<bar> / ipow 2 (- 1074) < 1 / 2"
      by (simp add: d_def)
  qed
  then show ?thesis
    unfolding tax_compute.simps literal_18 using d by (simp add: fmul_def d_def)
qed

lemma gst18_underflow_2: "tax_compute GST18 (Fin (- ipow 2 (- 1073))) = NegZero"
proof -
  let ?c = "3242591731706757 / 18014398509481984 :: real"
  define d where "d = ipow 2 (- 1074)"
  have d: "0 < d" by (simp add: d_def ipow_pos)
  have d2: "ipow 2 (- 1073) = 2 * d"
    by (simp add: d_def ipow_def)
  have "rnd (- (2 * d) * ?c) = NegZero"
  proof (rule rnd_underflow_neg)
    show "- (2 * d) * ?c < 0" using d by simp
    have "\<bar>- (2 * d) * ?c\<bar> / d = 2 * ?c" using d by (simp add: abs_mult)
    then show "\<bar>- (2 * d) * ?c\<bar> / ipow 2 (- 1074) < 1 / 2"
      by (simp add: d_def)
  qed
  then show ?thesis
    unfolding tax_compute.simps literal_18 d2 using d by (simp add: fmul_def)
qed

theorem gst18_counterexample:
  "is_double (Fin (- ipow 2 (- 1074)))
   \<and> flt (Fin (- ipow 2 (- 1074))) (Fin 0)
   \<and> tax_compute GST18 (Fin (- ipow 2 (- 1074))) = NegZero
   \<and> \<not> flt NegZero (Fin 0)"
proof (intro conjI)
  show "is_double (Fin (- ipow 2 (- 1074)))"
    by (rule least_double)
  show "flt (Fin (- ipow 2 (- 1074))) (Fin 0)"
    using ipow_pos [of "- 1074"] by (simp add: flt_def rank_def)
  show "tax_compute GST18 (Fin (- ipow 2 (- 1074))) = NegZero"
    by (rule gst18_underflow)
  show "\<not> flt NegZero (Fin 0)"
    by (simp add: flt_def rank_def)
qed

text \<open>
  C4, as the code has it. \<^verbatim>\<open>GST18::compute\<close> returns, for every base, the product
  in \<^verbatim>\<open>double\<close> of the base and the double nearest to 0.18, a NaN or an infinite base
  included. A base below zero is not rejected: the tax has the negative sign, and it is
  below zero for every base of at most \<open>-3 * 2\<^sup>-\<^sup>1\<^sup>0\<^sup>7\<^sup>4\<close>. For the bases \<open>-2\<^sup>-\<^sup>1\<^sup>0\<^sup>7\<^sup>4\<close> and
  \<open>-2\<^sup>-\<^sup>1\<^sup>0\<^sup>7\<^sup>3\<close> the product underflows and the tax is the negative zero.
\<close>

theorem gst18_tax:
  "tax_compute GST18 base = fmul base (literal (18 / 100))
   \<and> literal (18 / 100) = Fin (3242591731706757 / 18014398509481984)
   \<and> (flt base (Fin 0) \<longrightarrow> signbit (tax_compute GST18 base))
   \<and> (fle base (Fin (- 3 / 2 ^ 1074)) \<longrightarrow> flt (tax_compute GST18 base) (Fin 0))
   \<and> tax_compute GST18 (Fin (- ipow 2 (- 1074))) = NegZero
   \<and> tax_compute GST18 (Fin (- ipow 2 (- 1073))) = NegZero"
proof -
  let ?c = "3242591731706757 / 18014398509481984 :: real"
  have sign: "signbit (fmul base (Fin ?c))" if "flt base (Fin 0)"
  proof (cases base)
    case (Fin b)
    with that have "b * ?c < 0"
      by (simp add: flt_def rank_def mult_less_0_iff)
    then have "signbit (rnd (b * ?c))"
      by (rule signbit_rnd_neg)
    with Fin that show ?thesis
      by (simp add: fmul_def flt_def rank_def)
  qed (use that in \<open>simp_all add: flt_def rank_def fmul_def signed_inf_def\<close>)
  have strict: "flt (fmul base (Fin ?c)) (Fin 0)" if "fle base (Fin (- 3 / 2 ^ 1074))"
  proof (cases base)
    case (Fin b)
    define t :: real where "t = 2 ^ 1074"
    have t: "0 < t" by (simp add: t_def)
    from that Fin have "b \<le> - 3 / t"
      by (simp add: fle_def rank_def t_def)
    with t have bt: "b * t \<le> - 3"
      by (simp only: pos_le_divide_eq)
    have b0: "b < 0"
    proof (rule ccontr)
      assume "\<not> b < 0"
      with t have "0 \<le> b * t" by simp
      with bt show False by linarith
    qed
    then have q: "b * ?c < 0"
      by (simp add: mult_less_0_iff)
    have "\<bar>b * ?c\<bar> * t = - (b * t) * ?c"
      using b0 by (simp add: abs_mult)
    moreover have "3 * ?c \<le> - (b * t) * ?c"
      using bt by (intro mult_right_mono) simp_all
    ultimately have "1 / 2 < \<bar>b * ?c\<bar> * t"
      by simp
    then have "1 / 2 < \<bar>b * ?c\<bar> * 2 ^ 1074"
      by (simp only: t_def)
    with q have "flt (rnd (b * ?c)) (Fin 0)"
      by (rule rnd_neg_strict)
    with Fin b0 show ?thesis
      by (simp add: fmul_def)
  qed (use that in \<open>simp_all add: fle_def flt_def rank_def fmul_def signed_inf_def\<close>)
  from sign strict
    gst18_underflow [unfolded tax_compute.simps literal_18]
    gst18_underflow_2 [unfolded tax_compute.simps literal_18]
  show ?thesis
    unfolding tax_compute.simps literal_18 by blast
qed

theorem gst18_tax_witness:
  "flt (Fin (- 900)) (Fin 0) \<and> fle (Fin (- 900)) (Fin (- 3 / 2 ^ 1074))
   \<and> tax_compute GST18 (Fin (- 900)) = Fin (- 162)
   \<and> signbit (tax_compute GST18 (Fin (- 900)))
   \<and> flt (tax_compute GST18 (Fin (- 900))) (Fin 0)"
proof -
  have h: "flt (Fin (- 900)) (Fin 0)" "fle (Fin (- 900)) (Fin (- 3 / 2 ^ 1074))"
    by (simp_all add: flt_def fle_def rank_def)
  have v: "fmul (Fin (- 900)) (literal (18 / 100)) = Fin (- 162)"
    by (simp add: float_eval)
  show ?thesis
    using h v gst18_tax [of "Fin (- 900)"] by simp
qed


text \<open>
  Against C5 as it is stated: a flat discount cannot hold a fraction. The amount \<open>12.5\<close>
  passed to the constructor of \<^verbatim>\<open>FlatOff\<close> becomes the \<^verbatim>\<open>int\<close> 12, and the strategy
  returns \<open>12.0\<close>.
\<close>

theorem flat_off_counterexample:
  "int_of_double (literal (25 / 2)) = Some 12
   \<and> compute (FlatOff 12) (literal 100) = literal 12
   \<and> literal 12 \<noteq> literal (25 / 2)"
  by (simp add: int_of_double_def to_zero_def float_eval)

text \<open>
  C5, as the code has it. \<^verbatim>\<open>FlatOff\<close> holds its amount as an \<^verbatim>\<open>int\<close>. For every
  amount that an \<^verbatim>\<open>int\<close> holds and every subtotal, a NaN or an infinity included,
  \<^verbatim>\<open>FlatOff(amount).compute\<close> returns the amount as a \<^verbatim>\<open>double\<close>, whatever the
  subtotal. No bound is enforced: a flat discount of 1000 on a subtotal of 100 returns
  1000.
\<close>

theorem flat_off_returns_int_amount:
  "compute (FlatOff amount) s = double_of_int amount
   \<and> double_of_int amount = Fin (real_of_int (sint amount))
   \<and> compute (FlatOff amount) s' = compute (FlatOff amount) s
   \<and> flt (Fin 100) (compute (FlatOff 1000) (Fin 100))"
  by (simp add: double_of_int_def flt_def rank_def del: of_int_sint)

section \<open>The returned text and the calls to the collaborators\<close>

text \<open>
  C7. The text that \<^verbatim>\<open>process\<close> returns is a function of the items, the discount
  strategies and the address alone: two calls with the same three arguments return the
  same text, whatever the collaborators of the two services do and whatever the state
  of the world in which each call is made.
\<close>

theorem process_text_deterministic:
  "fst (process svc items discounts email w) = fst (process svc' items discounts email w')"
  by (cases "taxRule svc"; cases "taxRule svc'"; cases "renderer svc"; cases "renderer svc'")
     (simp add: process_def Let_def)

text \<open>
  C6. \<^verbatim>\<open>process\<close> leaves the world as \<^verbatim>\<open>log\<close> leaves it, called once with the
  audit message, after \<^verbatim>\<open>send\<close>, which is called once with the address and the
  returned text when the address is not empty and not at all when it is empty. With
  collaborators that record their calls, the calls that one \<^verbatim>\<open>process\<close> adds are
  that \<^verbatim>\<open>send\<close>, if any, followed by one \<^verbatim>\<open>log\<close>. The audit message holds the
  address, empty or not, and the grand total.
\<close>

theorem process_calls:
  "snd (process svc items discounts email w) =
     logger svc (audit_message email (grand (totals (taxRule svc) items discounts)))
       (if email = [] then w
        else emailer svc email (fst (process svc items discounts email w)) w)
   \<and> snd (process recording_service items discounts email calls) =
     calls @
     (if email = [] then []
      else [Send email (fst (process recording_service items discounts email calls))]) @
     [Log (audit_message email (grand (totals GST18 items discounts)))]
   \<and> audit_message email (grand (totals GST18 items discounts)) =
     ''Invoice processed for '' @ email @ '' total='' @
     to_string (grand (totals GST18 items discounts))"
  by (simp add: process_def Let_def recording_service_def audit_message_def)

subsection \<open>The audit message\<close>

lemma digit_char_digit: "nat d < 10 \<Longrightarrow> digit_char d \<in> set ''0123456789''"
  unfolding digit_char_def by (intro nth_mem) simp

lemma digits10_digits: "set (digits10 n) \<subseteq> set ''0123456789''"
proof (induction n rule: digits10.induct)
  case (1 n)
  show ?case
  proof (cases "n < 10")
    case True
    then have "nat n < 10" by simp
    then have "digit_char n \<in> set ''0123456789''" by (rule digit_char_digit)
    with True show ?thesis
      by (subst digits10.simps) simp
  next
    case False
    have "nat (n mod 10) < 10" by simp
    then have "digit_char (n mod 10) \<in> set ''0123456789''" by (rule digit_char_digit)
    with False 1 show ?thesis
      by (subst digits10.simps) simp
  qed
qed

lemma digits10_not_Nil: "digits10 n \<noteq> []"
  by (subst digits10.simps) simp

lemma length_digits10:
  "0 < k \<Longrightarrow> n < 10 ^ k \<Longrightarrow> length (digits10 n) \<le> k"
proof (induction k arbitrary: n)
  case 0
  then show ?case by simp
next
  case (Suc k)
  show ?case
  proof (cases "n < 10")
    case True
    then show ?thesis by (subst digits10.simps) simp
  next
    case False
    with Suc.prems have k: "0 < k"
      by (cases k) simp_all
    define m :: int where "m = 10 ^ k"
    from Suc.prems have "n < 10 * m"
      by (simp add: m_def)
    then have "n div 10 < m"
      by linarith
    then have "n div 10 < 10 ^ k"
      by (simp only: m_def)
    with Suc.IH k have "length (digits10 (n div 10)) \<le> k" by simp
    with False show ?thesis by (subst digits10.simps) simp
  qed
qed

lemma fixed6_shape:
  "\<exists>ip frac. fixed6 a = ip @ CHR ''.'' # frac \<and> ip \<noteq> [] \<and> set ip \<subseteq> set ''0123456789'' \<and>
     length frac = 6 \<and> set frac \<subseteq> set ''0123456789''"
proof -
  define n where "n = round_half_even (a * 1000000)"
  have "n mod 1000000 < 10 ^ 6" by simp
  then have len: "length (digits10 (n mod 1000000)) \<le> 6"
    by (intro length_digits10) simp_all
  have "set (pad6 (digits10 (n mod 1000000))) \<subseteq> set ''0123456789''"
    using digits10_digits [of "n mod 1000000"] by (auto simp: pad6_def)
  moreover have "length (pad6 (digits10 (n mod 1000000))) = 6"
    using len by (simp add: pad6_def)
  moreover have "fixed6 a = digits10 (n div 1000000) @ CHR ''.'' # pad6 (digits10 (n mod 1000000))"
    by (simp add: fixed6_def fixed_layout_def n_def)
  ultimately show ?thesis
    using digits10_digits [of "n div 1000000"] digits10_not_Nil [of "n div 1000000"] by blast
qed

text \<open>
  Against C10 as it is stated: a subtotal that overflows is an infinity, and so are the
  tax and the grand total; the audit message then ends in \<^verbatim>\<open>inf\<close>, with no decimal
  point and no digit. The unit price \<open>2\<^sup>1\<^sup>0\<^sup>2\<^sup>3\<close> of the example is a double.
\<close>

lemma num_digits_2_power: "num_digits 2 (2 ^ n) = int n + 1"
proof (induction n)
  case 0
  then show ?case by (simp add: num_digits_1)
next
  case (Suc n)
  have "num_digits 2 (2 ^ Suc n) = 1 + num_digits 2 (2 ^ Suc n div 2)"
    by (subst num_digits.simps) simp
  with Suc show ?case by simp
qed

lemma floor_log_2_power: "floor_log 2 (2 ^ n) = int n"
proof -
  have "\<lfloor>(2::real) ^ n\<rfloor> = 2 ^ n"
    by (metis floor_of_int of_int_numeral of_int_power)
  then show ?thesis
    by (simp add: floor_log_def num_digits_2_power)
qed

lemma overflowing_price_is_double: "is_double (Fin (2 ^ 1023))"
proof -
  have "\<bar>(2::real) ^ 1023\<bar> = of_int (2 ^ 52) * ipow 2 971"
    by (simp add: ipow_def)
  moreover have "\<bar>(2::real) ^ 1023\<bar> < 2 ^ 1024"
    by simp
  ultimately have "rnd_at 971 (2 ^ 1023) = Fin (2 ^ 1023)"
    by (intro rnd_at_exact) simp_all
  moreover have "max (floor_log 2 \<bar>(2::real) ^ 1023\<bar> - 52) (- 1074) = 971"
    using floor_log_2_power [of 1023] by simp
  ultimately have "rnd (2 ^ 1023) = Fin (2 ^ 1023)"
    by (simp only: rnd_def) simp
  then show ?thesis
    by (simp only: is_double_def double.case)
qed

lemma sum_items_overflowing: "sum_items (Fin 0) overflowing = PInf"
proof -
  have "rnd (2 ^ 1023 * 2) = PInf"
    by (rule rnd_overflow) simp
  then show ?thesis
    by (simp add: overflowing_def fmul_def double_of_int_def)
qed

lemma totals_overflowing:
  "totals GST18 overflowing [] = \<lparr>subtotal = PInf, discount_total = Fin 0, tax = PInf, grand = PInf\<rparr>"
  unfolding totals_def sum_items_overflowing tax_compute.simps literal_18
  by (simp add: fsub_def fmul_def signed_inf_def)

theorem audit_message_counterexample:
  "snd (process recording_service overflowing [] [] []) =
     [Log ''Invoice processed for  total=inf'']"
  by (simp add: process_def recording_service_def totals_overflowing audit_message_def
      to_string_def)

text \<open>
  With a discount of a hundred percent the same items give the difference of two
  infinities, a NaN with the sign bit set, for the taxable base and for the totals after
  it.
\<close>

lemma totals_overflowing_discounted:
  "totals GST18 overflowing [PercentOff (literal 100)] =
     \<lparr>subtotal = PInf, discount_total = PInf, tax = NaN True, grand = NaN True\<rparr>"
proof -
  have "fdiv (literal 100) (double_of_int 100) = Fin 1"
    by (simp add: float_eval)
  then show ?thesis
    unfolding totals_def sum_items_overflowing tax_compute.simps literal_18
    by (simp add: fsub_def fmul_def signed_inf_def)
qed

lemma audit_message_nan:
  "snd (process recording_service overflowing [PercentOff (literal 100)] [] []) =
     [Log ''Invoice processed for  total=-nan'']"
  by (simp add: process_def recording_service_def totals_overflowing_discounted
      audit_message_def to_string_def)

text \<open>
  C10, as the code has it. The message passed to \<^verbatim>\<open>log\<close> is
  \<^verbatim>\<open>Invoice processed for \<close>, the address, \<^verbatim>\<open> total=\<close> and \<^verbatim>\<open>to_string\<close> of the grand
  total; with an empty address the message reads \<^verbatim>\<open>Invoice processed for  total=\<close>
  before the total. \<^verbatim>\<open>to_string\<close> writes a finite total as a minus sign if it has
  the negative sign, at least one digit, the point and six digits. It writes an
  infinite total as \<^verbatim>\<open>inf\<close> or \<^verbatim>\<open>-inf\<close> and a NaN as \<^verbatim>\<open>nan\<close> or \<^verbatim>\<open>-nan\<close>.
\<close>

theorem audit_message_text:
  "last (snd (process recording_service items discounts email calls)) =
     Log (''Invoice processed for '' @ email @ '' total='' @
       to_string (grand (totals GST18 items discounts)))
   \<and> last (snd (process recording_service items discounts [] calls)) =
     Log (''Invoice processed for  total='' @ to_string (grand (totals GST18 items discounts)))
   \<and> (is_finite g \<longrightarrow>
      (\<exists>ip frac. to_string g = (if signbit g then ''-'' else []) @ ip @ CHR ''.'' # frac \<and>
         ip \<noteq> [] \<and> set ip \<subseteq> set ''0123456789'' \<and>
         length frac = 6 \<and> set frac \<subseteq> set ''0123456789''))
   \<and> to_string PInf = ''inf'' \<and> to_string NInf = ''-inf''
   \<and> to_string (NaN False) = ''nan'' \<and> to_string (NaN True) = ''-nan''"
proof -
  have "\<exists>ip frac. to_string g = (if signbit g then ''-'' else []) @ ip @ CHR ''.'' # frac \<and>
         ip \<noteq> [] \<and> set ip \<subseteq> set ''0123456789'' \<and>
         length frac = 6 \<and> set frac \<subseteq> set ''0123456789''" if "is_finite g"
  proof (cases g)
    case (Fin q)
    then show ?thesis
      using fixed6_shape [of "\<bar>q\<bar>"] by (auto simp: to_string_def)
  next
    case NegZero
    then show ?thesis
      using fixed6_shape [of 0] by (auto simp: to_string_def)
  qed (use that in simp_all)
  then show ?thesis
    by (simp add: process_def Let_def recording_service_def audit_message_def to_string_def)
qed

theorem audit_message_text_witness:
  "is_finite (grand (totals GST18 main_items [PercentOff (literal 10)]))
   \<and> to_string (grand (totals GST18 main_items [PercentOff (literal 10)])) = ''584.100000''
   \<and> last (snd (process recording_service main_items [PercentOff (literal 10)]
        ''customer@example.com'' [])) =
     Log ''Invoice processed for customer@example.com total=584.100000''"
proof -
  have g: "grand (totals GST18 main_items [PercentOff (literal 10)]) =
      Fin (5137797934271693 / 8796093022208)"
    by (simp add: totals_def main_items_def float_eval)
  have s: "to_string (Fin (5137797934271693 / 8796093022208)) = ''584.100000''"
    by (simp add: float_eval text_eval)
  show ?thesis
    using audit_message_text [of main_items "[PercentOff (literal 10)]" "''customer@example.com''"
        "[]" "grand (totals GST18 main_items [PercentOff (literal 10)])"]
    by (simp add: g s)
qed

subsection \<open>The lines of the rendered text\<close>

lemma render_items_unlines:
  "render_items out items = out @ unlines (map item_line items)"
  by (induction items arbitrary: out) (simp_all add: unlines_def item_line_def)

lemma unlines_append: "unlines (xs @ ys) = unlines xs @ unlines ys"
  by (simp add: unlines_def)

lemma unlines_Cons: "unlines (x # xs) = x @ CHR 0x0A # unlines xs"
  by (simp add: unlines_def)

lemma unlines_Nil: "unlines [] = []"
  by (simp add: unlines_def)

lemma split_lines_line:
  "CHR 0x0A \<notin> set l \<Longrightarrow> split_lines line (l @ CHR 0x0A # rest) = (line @ l) # split_lines [] rest"
  by (induction l arbitrary: line) auto

lemma split_lines_unlines:
  "\<forall>l\<in>set ls. CHR 0x0A \<notin> set l \<Longrightarrow> split_lines [] (unlines ls) = ls"
proof (induction ls)
  case Nil
  then show ?case by (simp add: unlines_Nil)
next
  case (Cons l ls)
  then have "split_lines [] (l @ CHR 0x0A # unlines ls) = ([] @ l) # split_lines [] (unlines ls)"
    by (intro split_lines_line) simp
  with Cons show ?case by (simp add: unlines_Cons)
qed

lemma digits10_no_newline: "CHR 0x0A \<notin> set (digits10 n)"
  using digits10_digits [of n] by auto

lemma strip_zeros_subset: "c \<in> set (strip_zeros s) \<Longrightarrow> c \<in> set s"
  unfolding strip_zeros_def by (auto dest: set_dropWhileD)

lemma show_int_no_newline: "CHR 0x0A \<notin> set (show_int n)"
  by (simp add: show_int_def digits10_no_newline)

lemma show_exponent_no_newline: "CHR 0x0A \<notin> set (show_exponent x)"
  by (simp add: show_exponent_def digits10_no_newline)

lemma layout_no_newline: "CHR 0x0A \<notin> set ds \<Longrightarrow> CHR 0x0A \<notin> set (layout x ds)"
  by (auto simp: layout_def show_exponent_no_newline
      dest: in_set_takeD in_set_dropD strip_zeros_subset)

lemma general6_no_newline: "CHR 0x0A \<notin> set (general6 a)"
  by (simp add: general6_def general6_at_def significant6_def layout_no_newline
      digits10_no_newline)

lemma show_double_no_newline: "CHR 0x0A \<notin> set (show_double d)"
  by (cases d) (simp_all add: show_double_def general6_no_newline)

lemma item_line_no_newline: "CHR 0x0A \<notin> set (sku it) \<Longrightarrow> CHR 0x0A \<notin> set (item_line it)"
  by (simp add: item_line_def show_int_no_newline show_double_no_newline)

text \<open>
  Against C8 as it is stated: a SKU is written as it is. For one item whose SKU holds a
  newline the text has seven lines, two of them for the item.
\<close>

theorem rendered_lines_counterexample:
  "length split_sku = 1
   \<and> split_lines [] (fst (process recording_service split_sku [] [] [])) =
     [''INVOICE'', ''x'', ''y x1 @ 5'', ''Subtotal: 5'', ''Discounts: 0'', ''Tax: 0.9'',
      ''Total: 5.9'']"
  by (simp add: split_sku_def process_def recording_service_def totals_def float_eval text_eval)

text \<open>
  C8, as the code has it. For every input the returned text is made of parts that each
  end in a newline: the header \<^verbatim>\<open>INVOICE\<close>, then for each item in order its SKU,
  \<^verbatim>\<open> x\<close> and the quantity, \<^verbatim>\<open> @ \<close> and the unit price, then \<^verbatim>\<open>Subtotal: \<close>,
  \<^verbatim>\<open>Discounts: \<close>, \<^verbatim>\<open>Tax: \<close> and \<^verbatim>\<open>Total: \<close> with their values, in this order. No
  number is written with a newline in it, so when no SKU holds a newline these parts
  are exactly the lines of the text: one header line, one line for each item, four
  summary lines.
\<close>

theorem rendered_lines:
  "fst (process svc items discounts email w) =
     unlines
       (''INVOICE'' # map item_line items @
        [''Subtotal: '' @ show_double (subtotal (totals (taxRule svc) items discounts)),
         ''Discounts: '' @ show_double (discount_total (totals (taxRule svc) items discounts)),
         ''Tax: '' @ show_double (tax (totals (taxRule svc) items discounts)),
         ''Total: '' @ show_double (grand (totals (taxRule svc) items discounts))])
   \<and> ((\<forall>it\<in>set items. CHR 0x0A \<notin> set (sku it)) \<longrightarrow>
      split_lines [] (fst (process svc items discounts email w)) =
        ''INVOICE'' # map item_line items @
        [''Subtotal: '' @ show_double (subtotal (totals (taxRule svc) items discounts)),
         ''Discounts: '' @ show_double (discount_total (totals (taxRule svc) items discounts)),
         ''Tax: '' @ show_double (tax (totals (taxRule svc) items discounts)),
         ''Total: '' @ show_double (grand (totals (taxRule svc) items discounts))])"
proof -
  let ?ls = "''INVOICE'' # map item_line items @
        [''Subtotal: '' @ show_double (subtotal (totals (taxRule svc) items discounts)),
         ''Discounts: '' @ show_double (discount_total (totals (taxRule svc) items discounts)),
         ''Tax: '' @ show_double (tax (totals (taxRule svc) items discounts)),
         ''Total: '' @ show_double (grand (totals (taxRule svc) items discounts))]"
  have struct: "fst (process svc items discounts email w) = unlines ?ls"
    by (cases "renderer svc")
       (simp add: process_def Let_def render_items_unlines unlines_append unlines_Cons
          unlines_Nil)
  have "split_lines [] (unlines ?ls) = ?ls" if "\<forall>it\<in>set items. CHR 0x0A \<notin> set (sku it)"
  proof (rule split_lines_unlines)
    show "\<forall>l\<in>set ?ls. CHR 0x0A \<notin> set l"
      using that by (auto simp: show_double_no_newline item_line_no_newline)
  qed
  with struct show ?thesis by simp
qed

theorem rendered_lines_witness:
  "CHR 0x0A \<notin> set ''ITEM-001'' \<and> CHR 0x0A \<notin> set ''ITEM-002''
   \<and> split_lines []
       (fst (process console_service main_items [PercentOff (literal 10)]
          ''customer@example.com'' [])) =
     [''INVOICE'', ''ITEM-001 x3 @ 100'', ''ITEM-002 x1 @ 250'',
      ''Subtotal: 550'', ''Discounts: 55'', ''Tax: 89.1'', ''Total: 584.1'']"
proof -
  have l: "map item_line main_items = [''ITEM-001 x3 @ 100'', ''ITEM-002 x1 @ 250'']"
    by (simp add: main_items_def item_line_def float_eval text_eval)
  have t: "show_double (subtotal (totals GST18 main_items [PercentOff (literal 10)])) = ''550''"
    "show_double (discount_total (totals GST18 main_items [PercentOff (literal 10)])) = ''55''"
    "show_double (tax (totals GST18 main_items [PercentOff (literal 10)])) = ''89.1''"
    "show_double (grand (totals GST18 main_items [PercentOff (literal 10)])) = ''584.1''"
    by (simp_all add: totals_def main_items_def float_eval text_eval)
  have h: "\<forall>it\<in>set main_items. CHR 0x0A \<notin> set (sku it)"
    by (simp add: main_items_def)
  show ?thesis
    using h rendered_lines [of console_service main_items "[PercentOff (literal 10)]"
        "''customer@example.com''" "[]"]
    by (simp add: console_service_def t l unlines_def)
qed

end
